theory Spec2Isabelle
  imports Main
begin

section \<open>Python strings\<close>

text \<open>
  A Python \<^verbatim>\<open>str\<close> is a sequence of Unicode code points, and \<^verbatim>\<open>len\<close> counts code
  points. A string is therefore modelled as a list of natural numbers, one per code point;
  \<open>py\<close> turns an ASCII literal into that representation.
\<close>

type_synonym pystr = "nat list"

definition py :: "string \<Rightarrow> pystr" where
  "py s = map of_char s"

text \<open>
  The characters for which \<^verbatim>\<open>str.isspace\<close> holds. \<^verbatim>\<open>str.strip()\<close> without argument and
  the class \<^verbatim>\<open>\s\<close> of \<^verbatim>\<open>re\<close> on a \<^verbatim>\<open>str\<close> pattern both use this one set.
\<close>

definition is_space :: "nat \<Rightarrow> bool" where
  "is_space c =
     ((0x09 \<le> c \<and> c \<le> 0x0D) \<or> (0x1C \<le> c \<and> c \<le> 0x20) \<or> c = 0x85 \<or> c = 0xA0
      \<or> c = 0x1680 \<or> (0x2000 \<le> c \<and> c \<le> 0x200A) \<or> c = 0x2028 \<or> c = 0x2029
      \<or> c = 0x202F \<or> c = 0x205F \<or> c = 0x3000)"

text \<open>\<^verbatim>\<open>s.lstrip()\<close>, \<^verbatim>\<open>s.rstrip()\<close>, \<^verbatim>\<open>s.strip()\<close> and \<^verbatim>\<open>s.rstrip(chars)\<close>.\<close>

definition lstrip :: "pystr \<Rightarrow> pystr" where
  "lstrip s = dropWhile is_space s"

definition rstrip :: "pystr \<Rightarrow> pystr" where
  "rstrip s = rev (dropWhile is_space (rev s))"

definition strip :: "pystr \<Rightarrow> pystr" where
  "strip s = rstrip (lstrip s)"

definition rstrip_chars :: "pystr \<Rightarrow> pystr \<Rightarrow> pystr" where
  "rstrip_chars chars s = rev (dropWhile (\<lambda>c. c \<in> set chars) (rev s))"

text \<open>
  \<^verbatim>\<open>re.sub('[...]', repl, s)\<close> for a character class \<open>cls\<close>: every character of the class
  is one match and is replaced by \<open>repl\<close>.
\<close>

fun re_sub_class :: "(nat \<Rightarrow> bool) \<Rightarrow> pystr \<Rightarrow> pystr \<Rightarrow> pystr" where
  "re_sub_class cls repl [] = []"
| "re_sub_class cls repl (c # cs) =
     (if cls c then repl @ re_sub_class cls repl cs else c # re_sub_class cls repl cs)"

text \<open>
  \<^verbatim>\<open>re.sub('[...]+', repl, s)\<close>: matches are found left to right and are greedy, so each
  maximal run of characters of the class is one match and is replaced by one \<open>repl\<close>.
\<close>

function re_sub_class_plus :: "(nat \<Rightarrow> bool) \<Rightarrow> pystr \<Rightarrow> pystr \<Rightarrow> pystr" where
  "re_sub_class_plus cls repl [] = []"
| "re_sub_class_plus cls repl (c # cs) =
     (if cls c then repl @ re_sub_class_plus cls repl (dropWhile cls cs)
      else c # re_sub_class_plus cls repl cs)"
  by pat_completeness auto
termination
  by (relation "measure (\<lambda>(cls, repl, s). length s)")
     (auto simp: length_dropWhile_le less_Suc_eq_le)

section \<open>sanitize_filename\<close>

text \<open>
  The character class of the first substitution, in the order of the source:
  \<^verbatim>\<open>\ / * ? : " < > |\<close>, the double angle brackets U+300A and U+300B, the full-width
  parentheses U+FF08 and U+FF09, \<^verbatim>\<open>( )\<close>, and the quotation marks U+2018, U+2019, U+201C,
  U+201D.
\<close>

definition illegal_chars :: "nat list" where
  "illegal_chars =
     [0x5C, 0x2F, 0x2A, 0x3F, 0x3A, 0x22, 0x3C, 0x3E, 0x7C, 0x300A, 0x300B, 0xFF08, 0xFF09,
      0x28, 0x29, 0x2018, 0x2019, 0x201C, 0x201D]"

definition remove_illegal :: "pystr \<Rightarrow> pystr" where
  "remove_illegal title = strip (re_sub_class (\<lambda>c. c \<in> set illegal_chars) [] title)"

text \<open>
  Lines 25 to 35 of the source: the successive values of \<^verbatim>\<open>clean_title\<close> before the
  test for the empty string.
\<close>

definition clean_steps :: "pystr \<Rightarrow> pystr" where
  "clean_steps title =
     (let clean_title = remove_illegal title;
          clean_title = re_sub_class_plus is_space (py '' '') clean_title;
          clean_title = re_sub_class_plus (\<lambda>c. c = 0x0A \<or> c = 0x0D) (py '' '') clean_title;
          max_len = 150;
          clean_title = (if length clean_title > max_len
                         then strip (take max_len clean_title) else clean_title);
          clean_title = rstrip_chars (py ''. '') clean_title
      in clean_title)"

definition sanitize_filename :: "pystr \<Rightarrow> pystr" where
  "sanitize_filename title =
     (let clean_title = clean_steps title
      in if clean_title = [] then py ''untitled'' else clean_title)"

text \<open>
  The set of removed characters as the specification lists it:
  \<^verbatim>\<open>\ / * ? : " < > | ( )\<close>, U+2018, U+2019, U+201C, U+201D, U+300A, U+300B.
\<close>

definition spec_banned :: "nat list" where
  "spec_banned =
     [0x5C, 0x2F, 0x2A, 0x3F, 0x3A, 0x22, 0x3C, 0x3E, 0x7C, 0x28, 0x29,
      0x2018, 0x2019, 0x201C, 0x201D, 0x300A, 0x300B]"

text \<open>
  Invariants used in the proofs about \<open>sanitize_filename\<close>. In a string that is \<open>wsnorm\<close>
  every whitespace character is a single U+0020 not followed by whitespace; a \<open>tidy\<close> string
  moreover does not start with whitespace and has no character of the class; a \<open>clean\<close>
  string is one that \<open>sanitize_filename\<close> may return.
\<close>

fun wsnorm :: "pystr \<Rightarrow> bool" where
  "wsnorm [] = True"
| "wsnorm (c # cs) =
     ((is_space c \<longrightarrow> c = 0x20 \<and> (case cs of [] \<Rightarrow> True | d # _ \<Rightarrow> \<not> is_space d))
      \<and> wsnorm cs)"

definition tidy :: "pystr \<Rightarrow> bool" where
  "tidy s = (wsnorm s \<and> (case s of [] \<Rightarrow> True | c # _ \<Rightarrow> \<not> is_space c)
             \<and> set s \<inter> set illegal_chars = {})"

definition clean :: "pystr \<Rightarrow> bool" where
  "clean s = (tidy s \<and> length s \<le> 150 \<and> s \<noteq> [] \<and> last s \<noteq> 0x2E \<and> last s \<noteq> 0x20)"

section \<open>extract_pdf_title\<close>

text \<open>
  The exceptions that the handlers of the source tell apart. \<open>OtherException\<close> stands for
  any other subclass of \<^verbatim>\<open>Exception\<close>. \<^verbatim>\<open>FileNotFoundError\<close> is a subclass of \<^verbatim>\<open>OSError\<close>.
\<close>

datatype py_exn = FileNotFoundError | OSError | PdfReadError | OtherException

text \<open>
  What the PDF library shows of a file. \<open>metadata\<close> is the value of \<^verbatim>\<open>reader.metadata\<close>
  (\<open>None\<close> when the document has none) and \<open>title\<close> that of \<^verbatim>\<open>meta.title\<close>; a page is the
  outcome of its \<^verbatim>\<open>extract_text()\<close>; a \<open>pdf_file\<close> is the outcome of
  \<^verbatim>\<open>pdf_path.open('rb')\<close> followed by \<^verbatim>\<open>PdfReader(f)\<close>. Each access may raise.
\<close>

record doc_info =
  title :: "pystr option"

type_synonym page = "py_exn + pystr"

record pdf_reader =
  metadata :: "py_exn + doc_info option"
  pages :: "py_exn + page list"

type_synonym pdf_file = "py_exn + pdf_reader"

text \<open>\<^verbatim>\<open>s.split(sep)\<close> for a separator of one character; \<open>cur\<close> is the piece being read.\<close>

fun split_from :: "nat \<Rightarrow> pystr \<Rightarrow> pystr \<Rightarrow> pystr list" where
  "split_from sep cur [] = [cur]"
| "split_from sep cur (c # cs) =
     (if c = sep then cur # split_from sep [] cs else split_from sep (cur @ [c]) cs)"

definition py_split :: "pystr \<Rightarrow> nat \<Rightarrow> pystr list" where
  "py_split s sep = split_from sep [] s"

text \<open>
  \<^verbatim>\<open>str.isdigit\<close>: the string is not empty and all its characters are digits. Among the
  ASCII characters the digits are \<^verbatim>\<open>0\<close> to \<^verbatim>\<open>9\<close>; beyond ASCII the digits are those of the
  Unicode database of the interpreter, which is the parameter \<open>udigit\<close>.
\<close>

definition is_digit_char :: "(nat \<Rightarrow> bool) \<Rightarrow> nat \<Rightarrow> bool" where
  "is_digit_char udigit c = (if c < 0x80 then 0x30 \<le> c \<and> c \<le> 0x39 else udigit c)"

definition isdigit :: "(nat \<Rightarrow> bool) \<Rightarrow> pystr \<Rightarrow> bool" where
  "isdigit udigit s = (s \<noteq> [] \<and> list_all (is_digit_char udigit) s)"

text \<open>The condition of line 77.\<close>

definition plausible :: "(nat \<Rightarrow> bool) \<Rightarrow> pystr \<Rightarrow> bool" where
  "plausible udigit line = (5 < length line \<and> length line < 100 \<and> \<not> isdigit udigit line)"

text \<open>The \<^verbatim>\<open>for\<close> loop of lines 75 to 79; \<open>None\<close> when it ends without returning.\<close>

fun scan_lines :: "(nat \<Rightarrow> bool) \<Rightarrow> pystr list \<Rightarrow> pystr option" where
  "scan_lines udigit [] = None"
| "scan_lines udigit (line # rest) =
     (if plausible udigit line then Some line else scan_lines udigit rest)"

text \<open>The list comprehension of line 73.\<close>

definition text_lines :: "pystr \<Rightarrow> pystr list" where
  "text_lines text = map strip (filter (\<lambda>line. strip line \<noteq> []) (py_split text 0x0A))"

text \<open>Lines 72 to 83; \<open>None\<close> when control falls through without a \<^verbatim>\<open>return\<close>.\<close>

definition title_from_text :: "(nat \<Rightarrow> bool) \<Rightarrow> pystr \<Rightarrow> pystr option" where
  "title_from_text udigit text =
     (if text \<noteq> [] then
        (let lines = text_lines text in
         case scan_lines udigit lines of
           Some line \<Rightarrow> Some line
         | None \<Rightarrow> (case lines of [] \<Rightarrow> None | line0 # _ \<Rightarrow> Some line0))
      else None)"

text \<open>Lines 58 to 65; \<open>None\<close> when the metadata gives no title to return.\<close>

definition title_from_metadata :: "doc_info option \<Rightarrow> pystr option" where
  "title_from_metadata meta =
     (case meta of
        None \<Rightarrow> None
      | Some m \<Rightarrow>
          (case title m of
             None \<Rightarrow> None
           | Some raw \<Rightarrow>
               if raw \<noteq> [] then (let t = strip raw in if t \<noteq> [] then Some t else None)
               else None))"

text \<open>
  The body of the outer \<^verbatim>\<open>try\<close>, lines 54 to 86. \<open>Inl e\<close>: the exception \<open>e\<close> leaves the
  body; \<open>Inr (Some t)\<close>: the body returns \<open>t\<close>; \<open>Inr None\<close>: the body ends without a
  \<^verbatim>\<open>return\<close>. An exception of \<^verbatim>\<open>extract_text\<close> is caught by the inner handler of line 84.
\<close>

definition extract_try :: "(nat \<Rightarrow> bool) \<Rightarrow> pdf_file \<Rightarrow> py_exn + pystr option" where
  "extract_try udigit file =
     (case file of
        Inl e \<Rightarrow> Inl e
      | Inr reader \<Rightarrow>
          (case metadata reader of
             Inl e \<Rightarrow> Inl e
           | Inr meta \<Rightarrow>
               (case title_from_metadata meta of
                  Some t \<Rightarrow> Inr (Some t)
                | None \<Rightarrow>
                    (case pages reader of
                       Inl e \<Rightarrow> Inl e
                     | Inr [] \<Rightarrow> Inr None
                     | Inr (first_page # _) \<Rightarrow>
                         (case first_page of
                            Inl text_extract_error \<Rightarrow> Inr None
                          | Inr text \<Rightarrow> Inr (title_from_text udigit text))))))"

text \<open>
  The whole function. The three handlers of lines 88 to 94 end in the \<^verbatim>\<open>return None\<close> of
  line 97, as does a body that ends without returning. \<open>Inl e\<close> would be an exception that
  reaches the caller.
\<close>

definition extract_pdf_title :: "(nat \<Rightarrow> bool) \<Rightarrow> pdf_file \<Rightarrow> py_exn + pystr option" where
  "extract_pdf_title udigit file =
     (case extract_try udigit file of
        Inr (Some t) \<Rightarrow> Inr (Some t)
      | Inr None \<Rightarrow> Inr None
      | Inl FileNotFoundError \<Rightarrow> Inr None
      | Inl PdfReadError \<Rightarrow> Inr None
      | Inl e \<Rightarrow> Inr None)"

section \<open>find_available_filename\<close>

text \<open>\<^verbatim>\<open>str(n)\<close> of a non-negative integer, as the f-string of line 115 formats the counter.\<close>

fun str_nat :: "nat \<Rightarrow> pystr" where
  "str_nat n = (if n < 10 then [0x30 + n] else str_nat (n div 10) @ [0x30 + n mod 10])"

declare str_nat.simps [simp del]

text \<open>
  The directory is the set \<open>existing\<close> of the names \<open>n\<close> for which
  \<^verbatim>\<open>(target_dir / n).exists()\<close> holds; a path in the directory is given by its name. The
  \<^verbatim>\<open>while\<close> loop of lines 114 to 117 has no bound, so it is a partial function: \<open>None\<close>
  means that it does not return.
\<close>

partial_function (option) probe :: "pystr set \<Rightarrow> pystr \<Rightarrow> pystr \<Rightarrow> pystr \<Rightarrow> nat \<Rightarrow> pystr option"
  where
  "probe existing base_name extension new_filename counter =
     (if new_filename \<in> existing
      then probe existing base_name extension
             (base_name @ py ''_'' @ str_nat counter @ extension) (counter + 1)
      else Some new_filename)"

definition find_available_filename :: "pystr set \<Rightarrow> pystr \<Rightarrow> pystr \<Rightarrow> pystr option" where
  "find_available_filename existing base_name extension =
     probe existing base_name extension (base_name @ extension) 1"

text \<open>
  The sequence of names of the specification: \<open>baseName + extension\<close>, then
  \<open>baseName_1 + extension\<close>, \<open>baseName_2 + extension\<close>, and so on.
\<close>

definition candidate :: "pystr \<Rightarrow> pystr \<Rightarrow> nat \<Rightarrow> pystr" where
  "candidate base_name extension k =
     (if k = 0 then base_name @ extension
      else base_name @ py ''_'' @ str_nat k @ extension)"

section \<open>rename_pdfs_in_folder\<close>

text \<open>
  A path of the folder is given by its \<^verbatim>\<open>stem\<close> and its \<^verbatim>\<open>suffix\<close>; its \<^verbatim>\<open>name\<close> is both
  together. The files of the folder are a map from names to what opening each one yields.
\<close>

record pdf_path =
  stem :: pystr
  suffix :: pystr

definition path_name :: "pdf_path \<Rightarrow> pystr" where
  "path_name p = stem p @ suffix p"

definition open_pdf :: "(pystr \<rightharpoonup> pdf_file) \<Rightarrow> pdf_path \<Rightarrow> pdf_file" where
  "open_pdf fs p = (case fs (path_name p) of None \<Rightarrow> Inl FileNotFoundError | Some f \<Rightarrow> f)"

text \<open>
  \<^verbatim>\<open>pdf_path.rename(new_path)\<close>. The failures that the operating system may report for a
  file that exists (permissions, path length) are the parameter \<open>os_error\<close>.
\<close>

definition rename_path ::
  "(pystr \<Rightarrow> pystr \<Rightarrow> py_exn option) \<Rightarrow> (pystr \<rightharpoonup> pdf_file) \<Rightarrow> pystr \<Rightarrow> pystr
     \<Rightarrow> py_exn + (pystr \<rightharpoonup> pdf_file)" where
  "rename_path os_error fs old new =
     (case fs old of
        None \<Rightarrow> Inl FileNotFoundError
      | Some f \<Rightarrow>
          (case os_error old new of
             Some e \<Rightarrow> Inl e
           | None \<Rightarrow> Inr ((fs(old := None))(new \<mapsto> f))))"

record batch =
  files :: "pystr \<rightharpoonup> pdf_file"
  rename_count :: nat
  fail_count :: nat

text \<open>
  The body of the \<^verbatim>\<open>for\<close> loop, lines 137 to 169. \<open>None\<close>: the probe for a free name does
  not return; \<open>Some (Inl e)\<close>: the exception \<open>e\<close> leaves the loop; \<open>Some (Inr b)\<close>: the
  loop goes on to the next file in state \<open>b\<close>. Both handlers of the renaming, lines 161 to
  166, count a failure.
\<close>

definition process_pdf ::
  "(nat \<Rightarrow> bool) \<Rightarrow> (pystr \<Rightarrow> pystr \<Rightarrow> py_exn option) \<Rightarrow> pdf_path \<Rightarrow> batch
     \<Rightarrow> (py_exn + batch) option" where
  "process_pdf udigit os_error pdf_path b =
     (case extract_pdf_title udigit (open_pdf (files b) pdf_path) of
        Inl e \<Rightarrow> Some (Inl e)
      | Inr None \<Rightarrow> Some (Inr (b\<lparr>fail_count := fail_count b + 1\<rparr>))
      | Inr (Some t) \<Rightarrow>
          if t = [] then Some (Inr (b\<lparr>fail_count := fail_count b + 1\<rparr>))
          else
            (let clean_title = sanitize_filename t in
             if clean_title = py ''untitled'' \<and> stem pdf_path = py ''untitled''
             then Some (Inr b)
             else if clean_title = [] then Some (Inr b)
             else if clean_title = stem pdf_path then Some (Inr b)
             else
               (case find_available_filename (dom (files b)) clean_title (suffix pdf_path) of
                  None \<Rightarrow> None
                | Some new_path \<Rightarrow>
                    (case rename_path os_error (files b) (path_name pdf_path) new_path of
                       Inr fs \<Rightarrow>
                         Some (Inr (b\<lparr>files := fs, rename_count := rename_count b + 1\<rparr>))
                     | Inl e \<Rightarrow> Some (Inr (b\<lparr>fail_count := fail_count b + 1\<rparr>))))))"

fun rename_loop ::
  "(nat \<Rightarrow> bool) \<Rightarrow> (pystr \<Rightarrow> pystr \<Rightarrow> py_exn option) \<Rightarrow> pdf_path list \<Rightarrow> batch
     \<Rightarrow> (py_exn + batch) option" where
  "rename_loop udigit os_error [] b = Some (Inr b)"
| "rename_loop udigit os_error (pdf_path # rest) b =
     (case process_pdf udigit os_error pdf_path b of
        None \<Rightarrow> None
      | Some (Inl e) \<Rightarrow> Some (Inl e)
      | Some (Inr b') \<Rightarrow> rename_loop udigit os_error rest b')"

text \<open>
  The folder given to the function: whether its path is a directory, the paths that
  \<^verbatim>\<open>glob('*.pdf')\<close> yields, and its files. The result is the pair of counts of the summary
  of line 171, or \<open>Inr None\<close> when the path is not a directory and there is no summary.
\<close>

record folder =
  is_dir :: bool
  pdf_files :: "pdf_path list"
  contents :: "pystr \<rightharpoonup> pdf_file"

definition rename_pdfs_in_folder ::
  "(nat \<Rightarrow> bool) \<Rightarrow> (pystr \<Rightarrow> pystr \<Rightarrow> py_exn option) \<Rightarrow> folder
     \<Rightarrow> (py_exn + (nat \<times> nat) option) option" where
  "rename_pdfs_in_folder udigit os_error folder_path =
     (if \<not> is_dir folder_path then Some (Inr None)
      else
        (case rename_loop udigit os_error (pdf_files folder_path)
                \<lparr>files = contents folder_path, rename_count = 0, fail_count = 0\<rparr> of
           None \<Rightarrow> None
         | Some (Inl e) \<Rightarrow> Some (Inl e)
         | Some (Inr b) \<Rightarrow> Some (Inr (Some (rename_count b, fail_count b)))))"

section \<open>Properties of the string operations\<close>

lemma re_sub_class_empty: "re_sub_class cls [] s = filter (\<lambda>c. \<not> cls c) s"
  by (induction s) auto

lemma rstripP_take: "rev (dropWhile P (rev s)) = take (length s - length (takeWhile P (rev s))) s"
proof -
  have "dropWhile P (rev s) = drop (length (takeWhile P (rev s))) (rev s)"
    by (rule dropWhile_eq_drop)
  then show ?thesis by (simp add: rev_drop)
qed

lemma rstripP_last: "rev (dropWhile P (rev s)) = [] \<or> \<not> P (last (rev (dropWhile P (rev s))))"
proof (cases "dropWhile P (rev s)")
  case Nil then show ?thesis by simp
next
  case (Cons a as)
  then have "\<not> P a" using hd_dropWhile[of P "rev s"] by (metis list.sel(1) list.distinct(1))
  with Cons show ?thesis by simp
qed

lemma rstripP_id: "s = [] \<or> \<not> P (last s) \<Longrightarrow> rev (dropWhile P (rev s)) = s"
  by (cases s rule: rev_cases) auto

lemma lstripP_id: "(case s of [] \<Rightarrow> True | c # _ \<Rightarrow> \<not> P c) \<Longrightarrow> dropWhile P s = s"
  by (cases s) auto

lemma wsnorm_take: "wsnorm s \<Longrightarrow> wsnorm (take n s)"
proof (induction s arbitrary: n)
  case Nil then show ?case by simp
next
  case (Cons c cs)
  show ?case
  proof (cases n)
    case 0 then show ?thesis by simp
  next
    case (Suc m)
    from Cons have "wsnorm (take m cs)" by simp
    with Cons.prems Suc show ?thesis
      by (cases cs; cases m) auto
  qed
qed

lemma tidy_take: "tidy s \<Longrightarrow> tidy (take n s)"
  unfolding tidy_def
  using wsnorm_take[of s n] set_take_subset[of n s]
  by (cases s; cases n) auto

lemma space_legal: "0x20 \<notin> set illegal_chars"
  by (simp add: illegal_chars_def)

lemma sub_ws_hd:
  "(case s of [] \<Rightarrow> True | c # _ \<Rightarrow> \<not> cls c) \<Longrightarrow>
   (case re_sub_class_plus cls [r] s of [] \<Rightarrow> True | c # _ \<Rightarrow> \<not> cls c)"
  by (cases s) auto

lemma dropWhile_hd: "(case dropWhile P s of [] \<Rightarrow> True | c # _ \<Rightarrow> \<not> P c)"
  by (induction s) auto

lemma sub_ws_wsnorm: "wsnorm (re_sub_class_plus is_space [0x20] s)"
proof (induction is_space "[0x20::nat]" s rule: re_sub_class_plus.induct)
  case 1 show ?case by simp
next
  case (2 c cs)
  show ?case
  proof (cases "is_space c")
    case True
    have "case re_sub_class_plus is_space [0x20] (dropWhile is_space cs) of [] \<Rightarrow> True | d # _ \<Rightarrow> \<not> is_space d"
      by (rule sub_ws_hd) (rule dropWhile_hd)
    with True 2 show ?thesis by simp
  next
    case False
    with 2 show ?thesis by simp
  qed
qed

lemma sub_ws_set: "set (re_sub_class_plus cls [r] s) \<subseteq> insert r (set s)"
proof (induction cls "[r]" s rule: re_sub_class_plus.induct)
  case (1 cls) show ?case by simp
next
  case (2 cls c cs)
  then show ?case using set_dropWhileD[of _ cls cs] by (auto split: if_splits)
qed

lemma sub_none: "\<forall>c\<in>set s. \<not> cls c \<Longrightarrow> re_sub_class_plus cls repl s = s"
  by (induction s) auto

lemma sub_ws_id: "wsnorm s \<Longrightarrow> re_sub_class_plus is_space [0x20] s = s"
proof (induction s)
  case Nil show ?case by simp
next
  case (Cons c cs)
  then show ?case by (cases cs) auto
qed

lemma wsnorm_spaces: "wsnorm s \<Longrightarrow> c \<in> set s \<Longrightarrow> is_space c \<Longrightarrow> c = 0x20"
  by (induction s) auto

lemma take_hd_case:
  "(case s of [] \<Rightarrow> True | c # _ \<Rightarrow> \<not> P c) \<Longrightarrow>
   (case take n s of [] \<Rightarrow> True | c # _ \<Rightarrow> \<not> P c)"
  by (cases s; cases n) auto

lemma set_dropWhile_subset: "set (dropWhile P xs) \<subseteq> set xs"
  by (auto dest: set_dropWhileD)

lemma strip_take: "strip s = take (length (lstrip s) - length (takeWhile is_space (rev (lstrip s)))) (lstrip s)"
  by (simp add: strip_def rstrip_def rstripP_take)

lemma strip_set: "set (strip s) \<subseteq> set s"
proof -
  have "set (strip s) \<subseteq> set (lstrip s)"
    by (subst strip_take) (rule set_take_subset)
  also have "\<dots> \<subseteq> set s" unfolding lstrip_def by (rule set_dropWhile_subset)
  finally show ?thesis .
qed

lemma strip_hd: "case strip s of [] \<Rightarrow> True | c # _ \<Rightarrow> \<not> is_space c"
proof -
  have "case lstrip s of [] \<Rightarrow> True | c # _ \<Rightarrow> \<not> is_space c"
    unfolding lstrip_def by (rule dropWhile_hd)
  then show ?thesis by (subst strip_take) (rule take_hd_case)
qed

lemma remove_illegal_props:
  "set (remove_illegal x) \<inter> set illegal_chars = {} \<and>
   (case remove_illegal x of [] \<Rightarrow> True | c # _ \<Rightarrow> \<not> is_space c)"
proof -
  define f where "f = filter (\<lambda>c. c \<notin> set illegal_chars) x"
  have eq: "remove_illegal x = strip f"
    by (simp add: remove_illegal_def re_sub_class_empty f_def)
  have "set f \<inter> set illegal_chars = {}" unfolding f_def by auto
  with strip_set[of f] have "set (strip f) \<inter> set illegal_chars = {}" by blast
  with strip_hd[of f] show ?thesis unfolding eq by simp
qed

lemma strip_tidy: "tidy s \<Longrightarrow> \<exists>n. strip s = take n s"
proof -
  assume "tidy s"
  then have "lstrip s = s" unfolding lstrip_def tidy_def by (intro lstripP_id) simp
  then show ?thesis by (auto simp: strip_def rstrip_def rstripP_take)
qed


lemma py_space: "py '' '' = [0x20]"
  by (simp add: py_def)

lemma py_dot_space: "py ''. '' = [0x2E, 0x20]"
  by (simp add: py_def)

lemma tidy_no_newline: "tidy s \<Longrightarrow> \<forall>c\<in>set s. \<not> (c = 0x0A \<or> c = 0x0D)"
proof
  fix c assume t: "tidy s" and c: "c \<in> set s"
  show "\<not> (c = 0x0A \<or> c = 0x0D)"
  proof
    assume nl: "c = 0x0A \<or> c = 0x0D"
    then have "is_space c" by (auto simp: is_space_def)
    with t c have "c = 0x20" unfolding tidy_def using wsnorm_spaces by blast
    with nl show False by simp
  qed
qed

lemma clean_untitled: "clean (py ''untitled'')"
  by (simp add: clean_def tidy_def py_def is_space_def illegal_chars_def)

lemma sanitize_clean: "clean (sanitize_filename x)"
proof -
  define s1 where "s1 = remove_illegal x"
  define s2 where "s2 = re_sub_class_plus is_space [0x20] s1"
  define s4 where "s4 = (if length s2 > 150 then strip (take 150 s2) else s2)"
  define s5 where "s5 = rstrip_chars [0x2E, 0x20] s4"
  have "wsnorm s2" unfolding s2_def by (rule sub_ws_wsnorm)
  moreover have "case s2 of [] \<Rightarrow> True | c # _ \<Rightarrow> \<not> is_space c"
    unfolding s2_def s1_def using remove_illegal_props[of x] by (intro sub_ws_hd) simp
  moreover have "set s2 \<inter> set illegal_chars = {}"
    using sub_ws_set[of is_space "0x20" s1] remove_illegal_props[of x] space_legal
    unfolding s2_def s1_def by auto
  ultimately have t2: "tidy s2" by (simp add: tidy_def)
  then have s3: "re_sub_class_plus (\<lambda>c. c = 0x0A \<or> c = 0x0D) [0x20] s2 = s2"
    by (intro sub_none tidy_no_newline)
  have t4: "tidy s4 \<and> length s4 \<le> 150"
  proof (cases "length s2 > 150")
    case True
    from t2 have tt: "tidy (take 150 s2)" by (rule tidy_take)
    then obtain n where "strip (take 150 s2) = take n (take 150 s2)"
      using strip_tidy by blast
    with tt True show ?thesis by (simp add: s4_def tidy_take del: take_take)
  next
    case False
    with t2 show ?thesis by (simp add: s4_def)
  qed
  have take5: "s5 = take (length s4 - length (takeWhile (\<lambda>c. c \<in> set [0x2E, 0x20]) (rev s4))) s4"
    unfolding s5_def rstrip_chars_def by (rule rstripP_take)
  have t5: "tidy s5" by (subst take5) (rule tidy_take, simp add: t4)
  have "length s5 \<le> length s4" by (subst take5) simp
  with t4 have l5: "length s5 \<le> 150" by linarith
  have e5: "s5 = [] \<or> \<not> (last s5 \<in> set [0x2E, 0x20])"
    unfolding s5_def rstrip_chars_def by (rule rstripP_last)
  have eq: "sanitize_filename x = (if s5 = [] then py ''untitled'' else s5)"
    using s3 unfolding s5_def s4_def s2_def s1_def
    by (simp add: sanitize_filename_def clean_steps_def Let_def py_space py_dot_space)
  show ?thesis
  proof (cases "s5 = []")
    case True
    with eq show ?thesis by (simp add: clean_untitled)
  next
    case False
    with eq t5 l5 e5 show ?thesis by (simp add: clean_def)
  qed
qed

lemma clean_fixed: assumes "clean s" shows "sanitize_filename s = s"
proof -
  from assms have t: "tidy s" and l: "length s \<le> 150" and ne: "s \<noteq> []"
    and la: "last s \<noteq> 0x2E" "last s \<noteq> 0x20"
    by (simp_all add: clean_def)
  have "filter (\<lambda>c. c \<notin> set illegal_chars) s = s"
    using t unfolding tidy_def by (intro filter_True) auto
  moreover have "lstrip s = s"
    unfolding lstrip_def using t by (intro lstripP_id) (simp add: tidy_def)
  moreover have "\<not> is_space (last s)"
  proof
    assume "is_space (last s)"
    moreover have "last s \<in> set s" using ne by simp
    ultimately have "last s = 0x20" using t wsnorm_spaces unfolding tidy_def by blast
    with la show False by simp
  qed
  then have "rstrip s = s" unfolding rstrip_def by (intro rstripP_id) simp
  ultimately have r: "remove_illegal s = s"
    by (simp add: remove_illegal_def re_sub_class_empty strip_def)
  have w: "re_sub_class_plus is_space [0x20] s = s"
    using t by (intro sub_ws_id) (simp add: tidy_def)
  have n: "re_sub_class_plus (\<lambda>c. c = 0x0A \<or> c = 0x0D) [0x20] s = s"
    using t by (intro sub_none tidy_no_newline)
  have d: "rstrip_chars [0x2E, 0x20] s = s"
    unfolding rstrip_chars_def using la by (intro rstripP_id) simp
  show ?thesis
    using l ne by (simp add: sanitize_filename_def clean_steps_def Let_def py_space py_dot_space r w n d)
qed


lemma clean_last_not_space: assumes "clean s" shows "\<not> is_space (last s)"
proof
  assume "is_space (last s)"
  moreover from assms have "last s \<in> set s" by (simp add: clean_def)
  moreover from assms have "wsnorm s" by (simp add: clean_def tidy_def)
  ultimately have "last s = 0x20" using wsnorm_spaces by blast
  with assms show False by (simp add: clean_def)
qed

lemma spec_banned_subset: "set illegal_chars = set spec_banned \<union> {0xFF08, 0xFF09}"
  by (simp add: illegal_chars_def spec_banned_def) blast

section \<open>Properties of sanitize_filename\<close>

text \<open>
  C1: for every input string, the result of \<open>sanitize_filename\<close> has no character of the
  class of the source, hence none of the set the specification lists, has at most 150
  characters, is not empty, and does not end in a full stop, a space or any other
  whitespace character; when the steps before the last test yield the empty string, the
  result is the placeholder \<^verbatim>\<open>untitled\<close>.
\<close>

theorem sanitize_filename_safe:
  "set (sanitize_filename x) \<inter> set illegal_chars = {}
   \<and> set (sanitize_filename x) \<inter> set spec_banned = {}
   \<and> length (sanitize_filename x) \<le> 150
   \<and> sanitize_filename x \<noteq> []
   \<and> last (sanitize_filename x) \<noteq> 0x2E
   \<and> last (sanitize_filename x) \<noteq> 0x20
   \<and> \<not> is_space (last (sanitize_filename x))
   \<and> (clean_steps x = [] \<longrightarrow> sanitize_filename x = py ''untitled'')"
proof -
  have c: "clean (sanitize_filename x)" by (rule sanitize_clean)
  then have "set (sanitize_filename x) \<inter> set illegal_chars = {}"
    by (simp add: clean_def tidy_def)
  moreover from this have "set (sanitize_filename x) \<inter> set spec_banned = {}"
    unfolding spec_banned_subset by blast
  moreover have "\<not> is_space (last (sanitize_filename x))"
    using c by (rule clean_last_not_space)
  moreover have "clean_steps x = [] \<longrightarrow> sanitize_filename x = py ''untitled''"
    by (simp add: sanitize_filename_def)
  ultimately show ?thesis using c by (simp add: clean_def)
qed

lemmas eval_defs = sanitize_filename_def clean_steps_def remove_illegal_def strip_def lstrip_def rstrip_def
  rstrip_chars_def illegal_chars_def is_space_def py_def

text \<open>
  The inputs \<^verbatim>\<open>"?? . "\<close>, which the steps reduce to the empty string, and
  \<^verbatim>\<open>" a/b  c. "\<close>.
\<close>

theorem sanitize_filename_safe_witness:
  "clean_steps (py ''?? . '') = [] \<and> sanitize_filename (py ''?? . '') = py ''untitled''
   \<and> sanitize_filename (py '' a/b  c. '') = py ''ab c''
   \<and> set (py ''ab c'') \<inter> set illegal_chars = {}"
  using sanitize_filename_safe [of "py ''?? . ''"] sanitize_filename_safe [of "py '' a/b  c. ''"]
  by (simp add: eval_defs)

text \<open>
  C5: \<open>sanitize_filename\<close> is idempotent. Its result is always a \<open>clean\<close> string, and it
  leaves every \<open>clean\<close> string as it is.
\<close>

theorem sanitize_filename_idempotent:
  "sanitize_filename (sanitize_filename x) = sanitize_filename x"
  by (rule clean_fixed) (rule sanitize_clean)

lemma filter_dropWhile_neg: "filter (\<lambda>c. \<not> P c) (dropWhile P s) = filter (\<lambda>c. \<not> P c) s"
  by (induction s) auto

lemma filter_strip: "filter (\<lambda>c. \<not> is_space c) (strip s) = filter (\<lambda>c. \<not> is_space c) s"
proof -
  have "filter (\<lambda>c. \<not> is_space c) (rstrip t) = filter (\<lambda>c. \<not> is_space c) t" for t
    unfolding rstrip_def by (simp add: filter_dropWhile_neg flip: rev_filter)
  then show ?thesis by (simp add: strip_def lstrip_def filter_dropWhile_neg)
qed

text \<open>
  C7 as the specification states it: the removed characters are those of \<open>spec_banned\<close>
  and every other character that is not whitespace is kept by the removal step. The
  full-width parenthesis U+FF08 is neither in \<open>spec_banned\<close> nor whitespace, and the
  removal step of line 25 drops it from the string \<^verbatim>\<open>a\<close> U+FF08 \<^verbatim>\<open>b\<close>.
\<close>

theorem remove_illegal_full_width_counterexample:
  "remove_illegal [0x61, 0xFF08, 0x62] = [0x61, 0x62]
   \<and> 0xFF08 \<notin> set spec_banned \<and> \<not> is_space 0xFF08
   \<and> sanitize_filename [0x61, 0xFF08, 0x62] = [0x61, 0x62]"
  by (simp add: eval_defs spec_banned_def)

text \<open>
  C7, amended: the class of the source is the set of the specification together with the
  full-width parentheses U+FF08 and U+FF09. No character of the class is in the result of
  \<open>sanitize_filename\<close>; the substitution of line 25 removes exactly the characters of the
  class, and after the \<^verbatim>\<open>strip()\<close> of that line the characters of the input that are
  neither whitespace nor in the class are all there, in their order.
\<close>

theorem remove_illegal_exact:
  "set illegal_chars = set spec_banned \<union> {0xFF08, 0xFF09}
   \<and> set (sanitize_filename x) \<inter> set illegal_chars = {}
   \<and> re_sub_class (\<lambda>c. c \<in> set illegal_chars) [] x = filter (\<lambda>c. c \<notin> set illegal_chars) x
   \<and> filter (\<lambda>c. \<not> is_space c) (remove_illegal x)
       = filter (\<lambda>c. \<not> is_space c \<and> c \<notin> set illegal_chars) x"
proof -
  have "clean (sanitize_filename x)" by (rule sanitize_clean)
  then have "set (sanitize_filename x) \<inter> set illegal_chars = {}"
    by (simp add: clean_def tidy_def)
  moreover have "filter (\<lambda>c. \<not> is_space c) (remove_illegal x)
       = filter (\<lambda>c. \<not> is_space c \<and> c \<notin> set illegal_chars) x"
    by (simp add: remove_illegal_def filter_strip re_sub_class_empty conj_commute)
  ultimately show ?thesis using spec_banned_subset by (simp add: re_sub_class_empty)
qed

section \<open>Properties of find_available_filename\<close>

lemma str_nat_nonempty: "str_nat n \<noteq> []"
  by (subst str_nat.simps) simp

lemma str_nat_inj: "str_nat m = str_nat n \<Longrightarrow> m = n"
proof (induction m arbitrary: n rule: str_nat.induct)
  case (1 m)
  show ?case
  proof (cases "m < 10")
    case True
    show ?thesis
    proof (cases "n < 10")
      case True
      with \<open>m < 10\<close> "1.prems" show ?thesis by (simp add: str_nat.simps)
    next
      case False
      with \<open>m < 10\<close> "1.prems" str_nat_nonempty[of "n div 10"] show ?thesis
        by (simp add: str_nat.simps[of m] str_nat.simps[of n])
    qed
  next
    case False
    show ?thesis
    proof (cases "n < 10")
      case True
      with \<open>\<not> m < 10\<close> "1.prems" str_nat_nonempty[of "m div 10"] show ?thesis
        by (simp add: str_nat.simps[of m] str_nat.simps[of n])
    next
      case nf: False
      with False "1.prems" have "str_nat (m div 10) = str_nat (n div 10)" and "m mod 10 = n mod 10"
        by (simp_all add: str_nat.simps[of m] str_nat.simps[of n])
      with "1.IH"[OF False] have "m div 10 = n div 10" and "m mod 10 = n mod 10" by simp_all
      then show ?thesis by (metis div_mult_mod_eq)
    qed
  qed
qed

lemma candidate_inj: "candidate b e j = candidate b e k \<Longrightarrow> 0 < j \<Longrightarrow> 0 < k \<Longrightarrow> j = k"
  by (simp add: candidate_def str_nat_inj)

lemma probe_hit: "n \<notin> S \<Longrightarrow> probe S b e n c = Some n"
  by (subst probe.simps) simp

lemma probe_miss:
  "n \<in> S \<Longrightarrow> probe S b e n c = probe S b e (b @ py ''_'' @ str_nat c @ e) (c + 1)"
  by (subst probe.simps) simp

lemma probe_first_free:
  assumes "candidate b e k \<notin> S" and "c \<le> k" and "0 < c"
    and "\<forall>j. c \<le> j \<and> j < k \<longrightarrow> candidate b e j \<in> S"
  shows "probe S b e (candidate b e c) (c + 1) = Some (candidate b e k)"
  using assms
proof (induction "k - c" arbitrary: c)
  case 0
  then have "c = k" by simp
  with 0 show ?case by (simp add: probe_hit)
next
  case (Suc d)
  then have "c < k" by simp
  with Suc.prems have "candidate b e c \<in> S" by simp
  then have "probe S b e (candidate b e c) (c + 1)
      = probe S b e (b @ py ''_'' @ str_nat (c + 1) @ e) (c + 1 + 1)"
    by (rule probe_miss)
  also have "b @ py ''_'' @ str_nat (c + 1) @ e = candidate b e (c + 1)"
    by (simp add: candidate_def)
  also have "probe S b e (candidate b e (c + 1)) (c + 1 + 1) = Some (candidate b e k)"
  proof (rule Suc.hyps(1))
    show "d = k - (c + 1)" using Suc.hyps(2) by simp
    show "candidate b e k \<notin> S" by (rule Suc.prems(1))
    show "c + 1 \<le> k" using \<open>c < k\<close> by simp
    show "0 < c + 1" by simp
    show "\<forall>j. c + 1 \<le> j \<and> j < k \<longrightarrow> candidate b e j \<in> S" using Suc.prems(4) by simp
  qed
  finally show ?case .
qed

lemma find_first_free:
  assumes "candidate b e k \<notin> S" and "\<forall>j<k. candidate b e j \<in> S"
  shows "find_available_filename S b e = Some (candidate b e k)"
proof (cases k)
  case 0
  with assms show ?thesis by (simp add: find_available_filename_def candidate_def probe_hit)
next
  case (Suc k')
  with assms have "candidate b e 0 \<in> S" by simp
  then have "b @ e \<in> S" by (simp add: candidate_def)
  then have "find_available_filename S b e = probe S b e (b @ py ''_'' @ str_nat 1 @ e) (1 + 1)"
    unfolding find_available_filename_def by (rule probe_miss)
  also have "b @ py ''_'' @ str_nat 1 @ e = candidate b e 1" by (simp add: candidate_def)
  also have "probe S b e (candidate b e 1) (1 + 1) = Some (candidate b e k)"
    using assms Suc by (intro probe_first_free) auto
  finally show ?thesis .
qed

lemma finite_has_free: assumes "finite S" shows "\<exists>k. candidate b e k \<notin> S"
proof (rule ccontr)
  assume "\<not> (\<exists>k. candidate b e k \<notin> S)"
  then have sub: "candidate b e ` {0<..} \<subseteq> S" by auto
  have "inj_on (candidate b e) {0<..}"
    by (rule inj_onI) (auto dest: candidate_inj)
  moreover have "infinite ({0<..} :: nat set)" by (simp add: infinite_Ioi)
  ultimately have "infinite (candidate b e ` {0<..})" by (simp add: finite_image_iff)
  with sub assms show False using finite_subset by blast
qed

lemma first_free_exists:
  assumes "finite S"
  shows "\<exists>k. candidate b e k \<notin> S \<and> (\<forall>j<k. candidate b e j \<in> S)"
proof -
  from finite_has_free[OF assms] obtain k0 where "candidate b e k0 \<notin> S" by blast
  then have "candidate b e (LEAST k. candidate b e k \<notin> S) \<notin> S" by (rule LeastI)
  moreover have "\<forall>j<(LEAST k. candidate b e k \<notin> S). candidate b e j \<in> S"
    using not_less_Least by blast
  ultimately show ?thesis by blast
qed


text \<open>
  C2: for a directory with finitely many names, \<open>find_available_filename\<close> returns the
  first name of the sequence \<open>candidate\<close> that is not in the directory, so the name it
  returns is not the name of an existing file. For \<^verbatim>\<open>report\<close> and \<^verbatim>\<open>.pdf\<close> that is
  \<^verbatim>\<open>report.pdf\<close> when that name is free, \<^verbatim>\<open>report_1.pdf\<close> when \<^verbatim>\<open>report.pdf\<close> exists and
  \<^verbatim>\<open>report_1.pdf\<close> is free, and \<^verbatim>\<open>report_2.pdf\<close> when both exist and \<^verbatim>\<open>report_2.pdf\<close> is
  free.
\<close>

theorem find_available_filename_first_free:
  assumes "finite S"
  shows "(\<exists>k. find_available_filename S b e = Some (candidate b e k)
              \<and> candidate b e k \<notin> S \<and> (\<forall>j<k. candidate b e j \<in> S))
    \<and> (\<forall>p. find_available_filename S b e = Some p \<longrightarrow> p \<notin> S)
    \<and> (py ''report.pdf'' \<notin> S \<longrightarrow>
         find_available_filename S (py ''report'') (py ''.pdf'') = Some (py ''report.pdf''))
    \<and> (py ''report.pdf'' \<in> S \<and> py ''report_1.pdf'' \<notin> S \<longrightarrow>
         find_available_filename S (py ''report'') (py ''.pdf'') = Some (py ''report_1.pdf''))
    \<and> (py ''report.pdf'' \<in> S \<and> py ''report_1.pdf'' \<in> S \<and> py ''report_2.pdf'' \<notin> S \<longrightarrow>
         find_available_filename S (py ''report'') (py ''.pdf'') = Some (py ''report_2.pdf''))"
proof -
  from first_free_exists[OF assms] obtain k
    where k: "candidate b e k \<notin> S" "\<forall>j<k. candidate b e j \<in> S" by blast
  then have r: "find_available_filename S b e = Some (candidate b e k)"
    by (rule find_first_free)
  with k have A: "\<exists>k. find_available_filename S b e = Some (candidate b e k)
              \<and> candidate b e k \<notin> S \<and> (\<forall>j<k. candidate b e j \<in> S)" by blast
  from r k have B: "\<forall>p. find_available_filename S b e = Some p \<longrightarrow> p \<notin> S" by simp
  have c0: "candidate (py ''report'') (py ''.pdf'') 0 = py ''report.pdf''"
    by (simp add: candidate_def py_def)
  have c1: "candidate (py ''report'') (py ''.pdf'') (Suc 0) = py ''report_1.pdf''"
    by (simp add: candidate_def py_def str_nat.simps)
  have c2: "candidate (py ''report'') (py ''.pdf'') 2 = py ''report_2.pdf''"
    by (simp add: candidate_def py_def str_nat.simps)
  have C: "find_available_filename S (py ''report'') (py ''.pdf'') = Some (py ''report.pdf'')"
    if "py ''report.pdf'' \<notin> S"
    using find_first_free[of "py ''report''" "py ''.pdf''" 0 S] that by (simp add: c0)
  have D: "find_available_filename S (py ''report'') (py ''.pdf'') = Some (py ''report_1.pdf'')"
    if "py ''report.pdf'' \<in> S" "py ''report_1.pdf'' \<notin> S"
    using find_first_free[of "py ''report''" "py ''.pdf''" "Suc 0" S] that by (simp add: c0 c1)
  have E: "find_available_filename S (py ''report'') (py ''.pdf'') = Some (py ''report_2.pdf'')"
    if "py ''report.pdf'' \<in> S" "py ''report_1.pdf'' \<in> S" "py ''report_2.pdf'' \<notin> S"
  proof -
    have "\<forall>j<2. candidate (py ''report'') (py ''.pdf'') j \<in> S"
    proof (intro allI impI)
      fix j :: nat assume "j < 2"
      then have "j = 0 \<or> j = Suc 0" by auto
      with that c0 c1 show "candidate (py ''report'') (py ''.pdf'') j \<in> S" by auto
    qed
    with find_first_free[of "py ''report''" "py ''.pdf''" 2 S] that show ?thesis by (simp add: c2)
  qed
  from A B C D E show ?thesis by blast
qed

text \<open>The empty directory, and the directories with one and with both of the names.\<close>

theorem find_available_filename_first_free_witness:
  "find_available_filename {} (py ''report'') (py ''.pdf'') = Some (py ''report.pdf'')
   \<and> find_available_filename {py ''report.pdf''} (py ''report'') (py ''.pdf'')
       = Some (py ''report_1.pdf'')
   \<and> find_available_filename {py ''report.pdf'', py ''report_1.pdf''} (py ''report'') (py ''.pdf'')
       = Some (py ''report_2.pdf'')"
  using find_available_filename_first_free [of "{}" "py ''report''" "py ''.pdf''"]
    find_available_filename_first_free [of "{py ''report.pdf''}" "py ''report''" "py ''.pdf''"]
    find_available_filename_first_free
      [of "{py ''report.pdf'', py ''report_1.pdf''}" "py ''report''" "py ''.pdf''"]
  by (simp add: py_def)

text \<open>
  C9: the loop has no bound on its counter, and yet \<open>find_available_filename\<close> returns a
  name whenever the directory has finitely many names: the names tried are pairwise
  different, so one of them is free.
\<close>

theorem find_available_filename_returns:
  assumes "finite S"
  shows "\<exists>p. find_available_filename S b e = Some p"
proof -
  from first_free_exists[OF assms] obtain k
    where "candidate b e k \<notin> S" "\<forall>j<k. candidate b e j \<in> S" by blast
  then have "find_available_filename S b e = Some (candidate b e k)"
    by (rule find_first_free)
  then show ?thesis by blast
qed

text \<open>A directory in which the first two names are taken.\<close>

theorem find_available_filename_returns_witness:
  "finite {py ''report.pdf'', py ''report_1.pdf''}
   \<and> (\<exists>p. find_available_filename {py ''report.pdf'', py ''report_1.pdf''}
             (py ''report'') (py ''.pdf'') = Some p)"
  using find_available_filename_returns
      [of "{py ''report.pdf'', py ''report_1.pdf''}" "py ''report''" "py ''.pdf''"]
  by simp

section \<open>Properties of extract_pdf_title\<close>

lemma strip_Nil: "strip [] = []"
  by (simp add: strip_def lstrip_def rstrip_def)

lemma strip_ends:
  assumes "strip s \<noteq> []"
  shows "\<not> is_space (hd (strip s)) \<and> \<not> is_space (last (strip s))"
proof -
  from strip_hd[of s] assms have "\<not> is_space (hd (strip s))"
    by (cases "strip s") auto
  moreover from rstripP_last[of is_space "lstrip s"] assms have "\<not> is_space (last (strip s))"
    unfolding strip_def rstrip_def by blast
  ultimately show ?thesis by simp
qed

lemma title_from_metadata_Some:
  "title_from_metadata meta = Some t \<Longrightarrow> \<exists>raw. t = strip raw \<and> strip raw \<noteq> []"
  by (auto simp: title_from_metadata_def Let_def split: option.splits if_splits)

lemma title_from_metadata_usable:
  "title m = Some raw \<Longrightarrow> strip raw \<noteq> [] \<Longrightarrow> title_from_metadata (Some m) = Some (strip raw)"
  by (auto simp: title_from_metadata_def Let_def strip_Nil)

lemma title_from_metadata_None:
  "(case meta of None \<Rightarrow> True
    | Some m \<Rightarrow> (case title m of None \<Rightarrow> True | Some raw \<Rightarrow> strip raw = []))
   \<Longrightarrow> title_from_metadata meta = None"
  by (auto simp: title_from_metadata_def Let_def split: option.splits)

lemma scan_lines_mem: "scan_lines ud ls = Some l \<Longrightarrow> l \<in> set ls"
  by (induction ls) (auto split: if_splits)

lemma scan_lines_first:
  "\<forall>x\<in>set pre. \<not> plausible ud x \<Longrightarrow> plausible ud l \<Longrightarrow>
   scan_lines ud (pre @ l # post) = Some l"
  by (induction pre) auto

lemma scan_lines_none: "\<forall>x\<in>set ls. \<not> plausible ud x \<Longrightarrow> scan_lines ud ls = None"
  by (induction ls) auto

lemma text_lines_filter_map:
  "text_lines text = filter (\<lambda>l. l \<noteq> []) (map strip (py_split text 0x0A))"
  by (simp add: text_lines_def filter_map comp_def)

lemma text_lines_stripped:
  "l \<in> set (text_lines text) \<Longrightarrow> \<exists>s. l = strip s \<and> strip s \<noteq> []"
  by (auto simp: text_lines_def)

lemma title_from_text_mem:
  "title_from_text ud text = Some t \<Longrightarrow> t \<in> set (text_lines text)"
  by (auto simp: title_from_text_def Let_def split: if_splits option.splits list.splits
      dest: scan_lines_mem)

lemma extract_pdf_title_try:
  "extract_pdf_title ud file = (case extract_try ud file of Inr res \<Rightarrow> Inr res | Inl e \<Rightarrow> Inr None)"
  by (simp add: extract_pdf_title_def split: sum.splits option.splits py_exn.splits)

lemma extract_try_Some:
  "extract_try ud file = Inr (Some t) \<Longrightarrow> \<exists>s. t = strip s \<and> strip s \<noteq> []"
  by (auto simp: extract_try_def split: sum.splits option.splits list.splits
      dest: title_from_metadata_Some title_from_text_mem text_lines_stripped)

lemma extract_no_metadata:
  "metadata r = Inr meta \<Longrightarrow> title_from_metadata meta = None \<Longrightarrow>
   extract_pdf_title ud (Inr r) =
     (case pages r of Inl e \<Rightarrow> Inr None | Inr [] \<Rightarrow> Inr None
      | Inr (Inl e # _) \<Rightarrow> Inr None | Inr (Inr text # _) \<Rightarrow> Inr (title_from_text ud text))"
  by (simp add: extract_pdf_title_try extract_try_def split: sum.splits list.splits)


lemmas strip_eval = strip_def lstrip_def rstrip_def is_space_def py_def

lemma my_paper: "strip (py ''  My Paper  '') = py ''My Paper''"
  by (simp add: strip_eval)

text \<open>
  C4: when the metadata can be read and its title is not empty after \<^verbatim>\<open>strip()\<close>,
  \<open>extract_pdf_title\<close> returns that stripped title. The pages play no part: the result is
  the same whatever \<open>pages\<close> is, also when reading the pages would raise. The title
  \<^verbatim>\<open>"  My Paper  "\<close> gives \<^verbatim>\<open>"My Paper"\<close>.
\<close>

theorem extract_metadata_title:
  assumes "metadata r = Inr (Some m)" and "title m = Some raw" and "strip raw \<noteq> []"
  shows "extract_pdf_title ud (Inr r) = Inr (Some (strip raw))
    \<and> extract_pdf_title ud (Inr (r\<lparr>pages := ps\<rparr>)) = Inr (Some (strip raw))
    \<and> (raw = py ''  My Paper  '' \<longrightarrow> extract_pdf_title ud (Inr r) = Inr (Some (py ''My Paper'')))"
proof -
  from assms have t: "title_from_metadata (Some m) = Some (strip raw)"
    by (intro title_from_metadata_usable)
  with assms(1) have "extract_pdf_title ud (Inr r') = Inr (Some (strip raw))"
    if "metadata r' = metadata r" for r'
    using that by (simp add: extract_pdf_title_try extract_try_def)
  then show ?thesis by (simp add: my_paper)
qed

text \<open>A document with the title \<^verbatim>\<open>"  My Paper  "\<close> whose pages cannot be read.\<close>

theorem extract_metadata_title_witness:
  "extract_pdf_title (\<lambda>c. False)
     (Inr \<lparr>metadata = Inr (Some \<lparr>title = Some (py ''  My Paper  '')\<rparr>),
           pages = Inl PdfReadError\<rparr>) = Inr (Some (py ''My Paper''))"
  using extract_metadata_title
    [of "\<lparr>metadata = Inr (Some \<lparr>title = Some (py ''  My Paper  '')\<rparr>), pages = Inl PdfReadError\<rparr>"
        "\<lparr>title = Some (py ''  My Paper  '')\<rparr>" "py ''  My Paper  ''" "\<lambda>c. False"]
  by (simp add: my_paper) (simp add: py_def)

lemma widgets_lines:
  "text_lines (py ''3\<newline>Introduction to Widgets\<newline>'' @ rest)
     = py ''3'' # py ''Introduction to Widgets'' # text_lines rest"
  by (simp add: text_lines_def py_split_def strip_eval)

lemma widgets_scan:
  "scan_lines ud (py ''3'' # py ''Introduction to Widgets'' # ls) = Some (py ''Introduction to Widgets'')"
  by (simp add: plausible_def isdigit_def is_digit_char_def py_def)

lemma plausible_iff:
  "plausible ud l = (5 < length l \<and> length l < 100 \<and> \<not> (l \<noteq> [] \<and> (\<forall>c\<in>set l. is_digit_char ud c)))"
  by (simp add: plausible_def isdigit_def list_all_iff)

text \<open>
  C3: for a document whose metadata gives no title (no metadata, no title, or a title that
  is empty after \<^verbatim>\<open>strip()\<close>) and whose first page yields a text that is not empty,
  \<open>extract_pdf_title\<close> returns the first of the lines of the text that is \<open>plausible\<close>,
  and the very first line when there are lines and none is \<open>plausible\<close>. The lines are
  the pieces between line feeds, each stripped, without those that are empty after
  stripping; a line is \<open>plausible\<close> when its length is strictly between 5 and 100 and it
  is not made of digits only. A text that starts with the line \<^verbatim>\<open>3\<close> and the line
  \<^verbatim>\<open>Introduction to Widgets\<close> gives \<^verbatim>\<open>Introduction to Widgets\<close>, whatever follows.
\<close>

theorem extract_first_page_title:
  assumes "metadata r = Inr meta"
    and "case meta of None \<Rightarrow> True
         | Some m \<Rightarrow> (case title m of None \<Rightarrow> True | Some raw \<Rightarrow> strip raw = [])"
    and "pages r = Inr (Inr text # ps)" and "text \<noteq> []"
  shows "(\<forall>pre l post. text_lines text = pre @ l # post \<and> (\<forall>x\<in>set pre. \<not> plausible ud x)
            \<and> plausible ud l \<longrightarrow> extract_pdf_title ud (Inr r) = Inr (Some l))
    \<and> (\<forall>l0 ls. text_lines text = l0 # ls \<and> (\<forall>x\<in>set (l0 # ls). \<not> plausible ud x)
            \<longrightarrow> extract_pdf_title ud (Inr r) = Inr (Some l0))
    \<and> text_lines text = filter (\<lambda>l. l \<noteq> []) (map strip (py_split text 0x0A))
    \<and> (\<forall>l. plausible ud l = (5 < length l \<and> length l < 100
            \<and> \<not> (l \<noteq> [] \<and> (\<forall>c\<in>set l. is_digit_char ud c))))
    \<and> (\<forall>rest. text = py ''3\<newline>Introduction to Widgets\<newline>'' @ rest \<longrightarrow>
          extract_pdf_title ud (Inr r) = Inr (Some (py ''Introduction to Widgets'')))"
proof -
  from assms(2) have "title_from_metadata meta = None" by (rule title_from_metadata_None)
  with assms have e: "extract_pdf_title ud (Inr r) = Inr (title_from_text ud text)"
    by (simp add: extract_no_metadata)
  have A: "extract_pdf_title ud (Inr r) = Inr (Some l)"
    if "text_lines text = pre @ l # post" "\<forall>x\<in>set pre. \<not> plausible ud x" "plausible ud l"
    for pre l post
    using that assms(4) scan_lines_first[of pre ud l post]
    by (simp add: e title_from_text_def)
  have B: "extract_pdf_title ud (Inr r) = Inr (Some l0)"
    if "text_lines text = l0 # ls" "\<forall>x\<in>set (l0 # ls). \<not> plausible ud x" for l0 ls
    using that assms(4) scan_lines_none[of "l0 # ls" ud]
    by (simp add: e title_from_text_def)
  have C: "extract_pdf_title ud (Inr r) = Inr (Some (py ''Introduction to Widgets''))"
    if "text = py ''3\<newline>Introduction to Widgets\<newline>'' @ rest" for rest
  proof -
    have "text_lines text = py ''3'' # py ''Introduction to Widgets'' # text_lines rest"
      unfolding that by (rule widgets_lines)
    then have "scan_lines ud (text_lines text) = Some (py ''Introduction to Widgets'')"
      by (simp only: widgets_scan)
    with assms(4) show ?thesis by (simp add: e title_from_text_def)
  qed
  from A B C show ?thesis
    using text_lines_filter_map[of "text"] plausible_iff[of ud] by blast
qed

text \<open>The text of the example, followed by three full stops, in a document without metadata.\<close>

theorem extract_first_page_title_witness:
  "extract_pdf_title (\<lambda>c. False)
     (Inr \<lparr>metadata = Inr None,
           pages = Inr [Inr (py ''3\<newline>Introduction to Widgets\<newline>...'')]\<rparr>)
     = Inr (Some (py ''Introduction to Widgets''))"
proof -
  have "py ''3\<newline>Introduction to Widgets\<newline>...''
      = py ''3\<newline>Introduction to Widgets\<newline>'' @ py ''...''"
    by (simp add: py_def)
  moreover have "py ''3\<newline>Introduction to Widgets\<newline>...'' \<noteq> []"
    by (simp add: py_def)
  ultimately show ?thesis
    using extract_first_page_title
      [of "\<lparr>metadata = Inr None, pages = Inr [Inr (py ''3\<newline>Introduction to Widgets\<newline>...'')]\<rparr>"
          None "py ''3\<newline>Introduction to Widgets\<newline>...''" "[]" "\<lambda>c. False"]
    by simp
qed

text \<open>
  C10: a title that \<open>extract_pdf_title\<close> returns is not empty and neither starts nor
  ends with a whitespace character.
\<close>

theorem extract_title_stripped:
  assumes "extract_pdf_title ud file = Inr (Some t)"
  shows "t \<noteq> [] \<and> \<not> is_space (hd t) \<and> \<not> is_space (last t)"
proof -
  from assms have "extract_try ud file = Inr (Some t)"
    by (simp add: extract_pdf_title_try split: sum.splits)
  then obtain s where "t = strip s" "strip s \<noteq> []"
    using extract_try_Some by blast
  then show ?thesis using strip_ends[of s] by simp
qed

text \<open>The title returned for the metadata title \<^verbatim>\<open>"  My Paper  "\<close>.\<close>

theorem extract_title_stripped_witness:
  "py ''My Paper'' \<noteq> [] \<and> \<not> is_space (hd (py ''My Paper''))
   \<and> \<not> is_space (last (py ''My Paper''))"
proof -
  have "extract_pdf_title (\<lambda>c. False)
     (Inr \<lparr>metadata = Inr (Some \<lparr>title = Some (py ''  My Paper  '')\<rparr>), pages = Inr []\<rparr>)
     = Inr (Some (py ''My Paper''))"
    by (simp add: extract_pdf_title_try extract_try_def title_from_metadata_def my_paper)
       (simp add: py_def)
  then show ?thesis by (rule extract_title_stripped)
qed


lemma text_lines_empty: "text_lines txt = [] \<Longrightarrow> title_from_text ud txt = None"
  by (simp add: title_from_text_def scan_lines_none)

lemma process_pdf_no_title:
  "extract_pdf_title ud (open_pdf (files b) p) = Inr None \<Longrightarrow>
   process_pdf ud os p b = Some (Inr (b\<lparr>fail_count := fail_count b + 1\<rparr>))"
  by (simp add: process_pdf_def)

text \<open>
  C8: \<open>extract_pdf_title\<close> returns \<open>None\<close> when the file cannot be opened or parsed,
  when reading the metadata or the pages raises, and, for a document whose metadata gives
  no title, when the text extraction of the first page raises, when there is no page, and
  when the first page has no line that is not empty after stripping. No exception ever
  reaches the caller. A file that is not there is one that cannot be opened. In the loop
  of \<open>rename_pdfs_in_folder\<close> a file without title adds one to \<open>fail_count\<close> and the
  loop goes on with the files that remain.
\<close>

theorem extract_failure_returns_None:
  "extract_pdf_title ud (Inl e) = Inr None
   \<and> (metadata r = Inl e \<longrightarrow> extract_pdf_title ud (Inr r) = Inr None)
   \<and> (metadata r = Inr meta \<and> title_from_metadata meta = None \<and> pages r = Inl e
        \<longrightarrow> extract_pdf_title ud (Inr r) = Inr None)
   \<and> (metadata r = Inr meta \<and> title_from_metadata meta = None \<and> pages r = Inr (Inl e # ps)
        \<longrightarrow> extract_pdf_title ud (Inr r) = Inr None)
   \<and> (metadata r = Inr meta \<and> title_from_metadata meta = None \<and> pages r = Inr []
        \<longrightarrow> extract_pdf_title ud (Inr r) = Inr None)
   \<and> (metadata r = Inr meta \<and> title_from_metadata meta = None \<and> pages r = Inr (Inr txt # ps)
        \<and> text_lines txt = [] \<longrightarrow> extract_pdf_title ud (Inr r) = Inr None)
   \<and> (\<exists>res. extract_pdf_title ud file = Inr res)
   \<and> (files b (path_name p) = None \<longrightarrow> extract_pdf_title ud (open_pdf (files b) p) = Inr None)
   \<and> (extract_pdf_title ud (open_pdf (files b) p) = Inr None \<longrightarrow>
        process_pdf ud os p b = Some (Inr (b\<lparr>fail_count := fail_count b + 1\<rparr>))
        \<and> rename_loop ud os (p # rest) b
            = rename_loop ud os rest (b\<lparr>fail_count := fail_count b + 1\<rparr>))"
proof -
  have A: "extract_pdf_title ud (Inl e) = Inr None"
    by (simp add: extract_pdf_title_try extract_try_def)
  have B: "extract_pdf_title ud (Inr r) = Inr None" if "metadata r = Inl e"
    using that by (simp add: extract_pdf_title_try extract_try_def)
  have C: "extract_pdf_title ud (Inr r) = Inr None"
    if "metadata r = Inr meta" "title_from_metadata meta = None"
       "pages r = Inl e \<or> pages r = Inr (Inl e # ps) \<or> pages r = Inr []
        \<or> (pages r = Inr (Inr txt # ps) \<and> text_lines txt = [])"
    using that by (auto simp: extract_no_metadata text_lines_empty)
  have D: "\<exists>res. extract_pdf_title ud file = Inr res"
    by (simp add: extract_pdf_title_try split: sum.splits)
  have E: "extract_pdf_title ud (open_pdf (files b) p) = Inr None" if "files b (path_name p) = None"
    using that by (simp add: open_pdf_def extract_pdf_title_try extract_try_def)
  have F: "process_pdf ud os p b = Some (Inr (b\<lparr>fail_count := fail_count b + 1\<rparr>))
        \<and> rename_loop ud os (p # rest) b
            = rename_loop ud os rest (b\<lparr>fail_count := fail_count b + 1\<rparr>)"
    if "extract_pdf_title ud (open_pdf (files b) p) = Inr None"
    using process_pdf_no_title[OF that] by simp
  from A B C D E F show ?thesis by blast
qed

text \<open>
  A document whose text extraction raises, and a folder whose only path names a file
  that is not there.
\<close>

theorem extract_failure_returns_None_witness:
  "extract_pdf_title (\<lambda>c. False) (Inr \<lparr>metadata = Inr None, pages = Inr [Inl OtherException]\<rparr>)
     = Inr None
   \<and> rename_loop (\<lambda>c. False) (\<lambda>old new. None) [\<lparr>stem = py ''a'', suffix = py ''.pdf''\<rparr>]
        \<lparr>files = Map.empty, rename_count = 0, fail_count = 0\<rparr>
     = Some (Inr \<lparr>files = Map.empty, rename_count = 0, fail_count = 1\<rparr>)"
  using extract_failure_returns_None
    [of "\<lambda>c. False" OtherException
        "\<lparr>metadata = Inr None, pages = Inr [Inl OtherException]\<rparr>" None "[]" "[]"
        "Inl OtherException"
        "\<lparr>files = Map.empty, rename_count = 0, fail_count = 0\<rparr>"
        "\<lparr>stem = py ''a'', suffix = py ''.pdf''\<rparr>" "\<lambda>old new. None" "[]"]
  by (simp add: title_from_metadata_def)

section \<open>The counts of rename_pdfs_in_folder\<close>

lemma sanitize_untitled: "sanitize_filename (py ''untitled'') = py ''untitled''"
  by (rule clean_fixed) (rule clean_untitled)

lemma sanitize_Foo: "sanitize_filename (py ''Foo'') = py ''Foo''"
  by (simp add: eval_defs)

text \<open>
  C6: the summary of line 171 reports \<open>rename_count\<close> as the files renamed and
  \<open>fail_count\<close> as the files that failed or were skipped. The branches of lines 142 to
  153 leave the loop body by \<^verbatim>\<open>continue\<close> and add to neither count. For a folder whose
  only file is \<^verbatim>\<open>untitled.pdf\<close> with the title \<^verbatim>\<open>untitled\<close>, and for one whose only file is
  \<^verbatim>\<open>Foo.pdf\<close> with the title \<^verbatim>\<open>Foo\<close>, one file is processed and both counts are 0.
\<close>

theorem summary_omits_skipped_files:
  "rename_pdfs_in_folder ud os
     \<lparr>is_dir = True,
      pdf_files = [\<lparr>stem = py ''untitled'', suffix = py ''.pdf''\<rparr>],
      contents = [py ''untitled.pdf'' \<mapsto>
         Inr \<lparr>metadata = Inr (Some \<lparr>title = Some (py ''untitled'')\<rparr>), pages = Inr []\<rparr>]\<rparr>
     = Some (Inr (Some (0, 0)))
   \<and> rename_pdfs_in_folder ud os
     \<lparr>is_dir = True,
      pdf_files = [\<lparr>stem = py ''Foo'', suffix = py ''.pdf''\<rparr>],
      contents = [py ''Foo.pdf'' \<mapsto>
         Inr \<lparr>metadata = Inr (Some \<lparr>title = Some (py ''Foo'')\<rparr>), pages = Inr []\<rparr>]\<rparr>
     = Some (Inr (Some (0, 0)))"
proof -
  have u: "strip (py ''untitled'') = py ''untitled''" by (simp add: strip_eval)
  have f: "strip (py ''Foo'') = py ''Foo''" by (simp add: strip_eval)
  have nu: "py ''untitled'' \<noteq> []" "py ''Foo'' \<noteq> []" "py ''Foo'' \<noteq> py ''untitled''"
    by (simp_all add: py_def)
  have pu: "py ''untitled'' @ py ''.pdf'' = py ''untitled.pdf''"
    "py ''Foo'' @ py ''.pdf'' = py ''Foo.pdf''" by (simp_all add: py_def)
  show ?thesis
    by (simp add: rename_pdfs_in_folder_def process_pdf_def open_pdf_def path_name_def pu
        extract_pdf_title_try extract_try_def title_from_metadata_def u f nu
        sanitize_untitled sanitize_Foo)
qed

end
